theory Spec2Isabelle
  imports Main "HOL-Library.Sublist"
begin

section \<open>Strings and characters\<close>

text \<open>
  A Python \<open>str\<close> is modelled as a \<^typ>\<open>string\<close>; a \<^typ>\<open>char\<close> stands for the code point
  of the same number, so the model covers the strings whose code points are below 256.
  Among those, \<open>str.isspace\<close> (the class \<open>\s\<close> of module \<open>re\<close> on \<open>str\<close> patterns) holds of
  the code points 9-13, 28-31, 32, 0x85 and 0xA0; the built-in \<open>int\<close> strips the same
  characters but 28-31; and the only decimal digits are \<open>0\<close>-\<open>9\<close>.
\<close>

definition squote :: char where
  "squote = CHR 0x27"

definition dquote :: char where
  "dquote = CHR 0x22"

definition isspace :: "char \<Rightarrow> bool" where
  "isspace c = (c \<in> set [CHR 0x09, CHR 0x0A, CHR 0x0B, CHR 0x0C, CHR 0x0D,
                           CHR 0x1C, CHR 0x1D, CHR 0x1E, CHR 0x1F, CHR 0x20,
                           CHR 0x85, CHR 0xA0])"

definition int_isspace :: "char \<Rightarrow> bool" where
  "int_isspace c = (c \<in> set [CHR 0x09, CHR 0x0A, CHR 0x0B, CHR 0x0C, CHR 0x0D,
                               CHR 0x20, CHR 0x85, CHR 0xA0])"

definition isdigit :: "char \<Rightarrow> bool" where
  "isdigit c = (c \<in> set ''0123456789'')"

definition digit_value :: "char \<Rightarrow> nat" where
  "digit_value c = of_char c - 48"

section \<open>The regular expression engine\<close>

text \<open>
  \<open>re.search\<close> is a backtracking matcher: it tries the start positions from left to
  right and, at each, the alternatives of every greedy repetition from the longest to the
  shortest. The model keeps that order. It has the constructs the pattern of
  \<open>_parse_version\<close> uses: a literal character, \<open>\s\<close>, a character set and its
  complement, each alone or under \<open>*\<close> or \<open>+\<close>, and the parentheses of group 1.
\<close>

datatype atom = Lit char | Space | AnyOf "char list" | NoneOf "char list"

fun atom_matches :: "atom \<Rightarrow> char \<Rightarrow> bool" where
  "atom_matches (Lit a) c = (c = a)"
| "atom_matches Space c = isspace c"
| "atom_matches (AnyOf cs) c = (c \<in> set cs)"
| "atom_matches (NoneOf cs) c = (c \<notin> set cs)"

datatype node = One atom | Star atom | Plus atom | GroupOpen | GroupClose

text \<open>
  The marks of group 1: the position where the group was last opened, and the span of
  the group once it has been closed (\<open>None\<close> while the group has not taken part).
\<close>

type_synonym marks = "nat \<times> (nat \<times> nat) option"

text \<open>
  \<open>rmatch ns s i g\<close> matches the nodes \<open>ns\<close> against the rest \<open>s\<close> of the subject, which
  starts at position \<open>i\<close>, and returns the end position and the marks of the first
  successful alternative.
\<close>

fun rmatch :: "node list \<Rightarrow> string \<Rightarrow> nat \<Rightarrow> marks \<Rightarrow> (nat \<times> marks) option" where
  "rmatch [] s i g = Some (i, g)"
| "rmatch (One a # ns) [] i g = None"
| "rmatch (One a # ns) (c # cs) i g =
     (if atom_matches a c then rmatch ns cs (Suc i) g else None)"
| "rmatch (Star a # ns) [] i g = rmatch ns [] i g"
| "rmatch (Star a # ns) (c # cs) i g =
     (if atom_matches a c then
        (case rmatch (Star a # ns) cs (Suc i) g of
           Some r \<Rightarrow> Some r
         | None \<Rightarrow> rmatch ns (c # cs) i g)
      else rmatch ns (c # cs) i g)"
| "rmatch (Plus a # ns) [] i g = None"
| "rmatch (Plus a # ns) (c # cs) i g =
     (if atom_matches a c then rmatch (Star a # ns) cs (Suc i) g else None)"
| "rmatch (GroupOpen # ns) s i g = rmatch ns s i (i, snd g)"
| "rmatch (GroupClose # ns) s i g = rmatch ns s i (fst g, Some (fst g, i))"

record match =
  span :: "nat \<times> nat"
  span1 :: "(nat \<times> nat) option"

text \<open>\<open>search_from ns s k\<close>: the scan of \<open>re.search\<close> over the start positions from \<open>k\<close> on.\<close>

fun search_from :: "node list \<Rightarrow> string \<Rightarrow> nat \<Rightarrow> match option" where
  "search_from ns [] k =
     (case rmatch ns [] k (0, None) of
        Some (e, g) \<Rightarrow> Some \<lparr>span = (k, e), span1 = snd g\<rparr>
      | None \<Rightarrow> None)"
| "search_from ns (c # cs) k =
     (case rmatch ns (c # cs) k (0, None) of
        Some (e, g) \<Rightarrow> Some \<lparr>span = (k, e), span1 = snd g\<rparr>
      | None \<Rightarrow> search_from ns cs (Suc k))"

definition re_search :: "node list \<Rightarrow> string \<Rightarrow> match option" where
  "re_search ns subject = search_from ns subject 0"

text \<open>\<open>m.group(1)\<close> on the subject the match was made on: \<open>subject[b:e]\<close>, or \<open>None\<close>.\<close>

definition group1 :: "string \<Rightarrow> match \<Rightarrow> string option" where
  "group1 subject m =
     (case span1 m of
        None \<Rightarrow> None
      | Some (b, e) \<Rightarrow> Some (take (e - b) (drop b subject)))"

definition lits :: "string \<Rightarrow> node list" where
  "lits w = map (\<lambda>c. One (Lit c)) w"

text \<open>The pattern \<^verbatim>\<open>VERSION\s*=\s*['\"]([^'\"]+)['\"]\<close>.\<close>

definition VERSION_RE :: "node list" where
  "VERSION_RE =
     lits ''VERSION'' @
     [Star Space, One (Lit CHR ''=''), Star Space,
      One (AnyOf [squote, dquote]),
      GroupOpen, Plus (NoneOf [squote, dquote]), GroupClose,
      One (AnyOf [squote, dquote])]"

section \<open>Built-ins: \<open>str.split\<close>, \<open>int\<close>, comparison of lists\<close>

text \<open>\<open>s.split(sep)\<close> with a one-character separator: one more piece than separators.\<close>

fun split_acc :: "char \<Rightarrow> string \<Rightarrow> string \<Rightarrow> string list" where
  "split_acc sep acc [] = [rev acc]"
| "split_acc sep acc (c # cs) =
     (if c = sep then rev acc # split_acc sep [] cs else split_acc sep (c # acc) cs)"

definition split :: "string \<Rightarrow> char \<Rightarrow> string list" where
  "split s sep = split_acc sep [] s"

text \<open>
  \<open>int(x)\<close> for a \<open>str\<close>, base 10: surrounding whitespace is stripped, one sign is
  allowed, then come digits, with single underscores allowed between two digits, and no
  more digits than \<open>sys.get_int_max_str_digits()\<close>, here its default. \<open>None\<close> stands for
  the \<open>ValueError\<close> that \<open>int\<close> raises otherwise.
\<close>

definition int_max_str_digits :: nat where
  "int_max_str_digits = 4300"

fun digits_from :: "nat \<Rightarrow> string \<Rightarrow> nat option" where
  "digits_from acc [] = Some acc"
| "digits_from acc (c # cs) =
     (if isdigit c then digits_from (10 * acc + digit_value c) cs
      else if c = CHR ''_'' then
        (case cs of
           [] \<Rightarrow> None
         | d # ds \<Rightarrow> if isdigit d then digits_from (10 * acc + digit_value d) ds else None)
      else None)"

definition digits :: "string \<Rightarrow> nat option" where
  "digits s =
     (case s of
        [] \<Rightarrow> None
      | c # cs \<Rightarrow>
          if length (filter isdigit s) > int_max_str_digits then None
          else if isdigit c then digits_from (digit_value c) cs
          else None)"

definition strip :: "string \<Rightarrow> string" where
  "strip s = rev (dropWhile int_isspace (rev (dropWhile int_isspace s)))"

definition py_int :: "string \<Rightarrow> int option" where
  "py_int x =
     (case strip x of
        [] \<Rightarrow> None
      | c # cs \<Rightarrow>
          if c = CHR ''-'' then map_option (\<lambda>n. - int n) (digits cs)
          else if c = CHR ''+'' then map_option int (digits cs)
          else map_option int (digits (c # cs)))"

text \<open>
  \<open>[int(x) for x in xs]\<close>: the first \<open>ValueError\<close> leaves the comprehension.
\<close>

fun ints :: "string list \<Rightarrow> int list option" where
  "ints [] = Some []"
| "ints (x # xs) =
     (case py_int x of
        None \<Rightarrow> None
      | Some n \<Rightarrow> (case ints xs of None \<Rightarrow> None | Some ns \<Rightarrow> Some (n # ns)))"

text \<open>
  \<open>v > w\<close> on lists: the first index where the items differ decides; when there is
  none within the shorter list, the lengths decide.
\<close>

fun list_gt :: "int list \<Rightarrow> int list \<Rightarrow> bool" where
  "list_gt (x # xs) (y # ys) = (if x = y then list_gt xs ys else x > y)"
| "list_gt xs ys = (length xs > length ys)"

section \<open>The update checker\<close>

datatype level = INFO | WARNING | ERROR

datatype signal =
    update_available string string
  | no_update string
  | check_failed string

text \<open>What a call leaves behind, in order: log records and emitted signals.\<close>

datatype event = Log level string | Emit signal

definition signals :: "event list \<Rightarrow> signal list" where
  "signals evs = concat (map (\<lambda>ev. case ev of Emit s \<Rightarrow> [s] | Log l m \<Rightarrow> []) evs)"

text \<open>
  The object: \<open>__init__\<close> sets \<open>current_version\<close> to the constant \<open>VERSION\<close> of the
  package, which any string stands for here.
\<close>

record UpdateChecker =
  current_version :: string

definition VERSION_URL :: string where
  "VERSION_URL =
     ''https://raw.githubusercontent.com/AndyCappDev/tourboxelite/master/tourboxelite/__init__.py''"

text \<open>Seconds.\<close>

definition REQUEST_TIMEOUT :: nat where
  "REQUEST_TIMEOUT = 5"

record request =
  url :: string
  headers :: "(string \<times> string) list"

text \<open>
  The exceptions that the fetch (\<open>urlopen\<close>, \<open>read\<close>, \<open>decode\<close>) raises, by the handler of
  \<open>run\<close> that catches them: \<open>URLError\<close> (and its subclass \<open>HTTPError\<close>) with the text of
  its \<open>reason\<close>, \<open>TimeoutError\<close>, and any other subclass of \<open>Exception\<close> with its text.
\<close>

datatype py_exception = URLError string | TimeoutError | OtherException string

text \<open>
  What lines 44-45 give: the decoded body, or the exception raised on the way. The
  network is a parameter \<open>urlopen\<close> of \<open>run\<close>, from the request and the timeout.
\<close>

datatype fetched = Content string | Raised py_exception

text \<open>
  The result of a block of statements: the events it left, and the exception that
  leaves the block, if any.
\<close>

record outcome =
  events :: "event list"
  raised :: "py_exception option"

definition parse_version :: "UpdateChecker \<Rightarrow> string \<Rightarrow> string option" where
  "parse_version self content =
     (case re_search VERSION_RE content of
        Some m \<Rightarrow> group1 content m
      | None \<Rightarrow> None)"

text \<open>
  \<open>_is_newer\<close>: the returned value and the events. A \<open>ValueError\<close> of either comprehension
  is caught: a warning is logged and \<open>False\<close> returned.
\<close>

definition is_newer :: "UpdateChecker \<Rightarrow> string \<Rightarrow> string \<Rightarrow> bool \<times> event list" where
  "is_newer self latest current =
     (case ints (split latest CHR ''.'') of
        None \<Rightarrow>
          (False, [Log WARNING (''Could not parse versions: '' @ latest @ '' vs '' @ current)])
      | Some latest_parts \<Rightarrow>
          (case ints (split current CHR ''.'') of
             None \<Rightarrow>
               (False, [Log WARNING (''Could not parse versions: '' @ latest @ '' vs '' @ current)])
           | Some current_parts \<Rightarrow> (list_gt latest_parts current_parts, [])))"

definition Request :: "UpdateChecker \<Rightarrow> request" where
  "Request self =
     \<lparr>url = VERSION_URL,
      headers = [(''User-Agent'', ''TourBoxElite/'' @ current_version self)]\<rparr>"

text \<open>
  The \<open>try\<close> block of \<open>run\<close>. \<open>not latest_version\<close> holds of \<open>None\<close> and of the empty
  string.
\<close>

definition try_block :: "UpdateChecker \<Rightarrow> (request \<Rightarrow> nat \<Rightarrow> fetched) \<Rightarrow> outcome" where
  "try_block self urlopen =
     (let ev0 = Log INFO (''Checking for updates (current version: '' @ current_version self @ '')'')
      in case urlopen (Request self) REQUEST_TIMEOUT of
           Raised e \<Rightarrow> \<lparr>events = [ev0], raised = Some e\<rparr>
         | Content content \<Rightarrow>
             (case parse_version self content of
                None \<Rightarrow>
                  \<lparr>events = [ev0, Emit (check_failed ''Could not parse version from GitHub'')],
                   raised = None\<rparr>
              | Some latest_version \<Rightarrow>
                  if latest_version = [] then
                    \<lparr>events = [ev0, Emit (check_failed ''Could not parse version from GitHub'')],
                     raised = None\<rparr>
                  else
                    (let ev1 = Log INFO (''Latest version on GitHub: '' @ latest_version);
                         (newer, evs) = is_newer self latest_version (current_version self)
                     in if newer then
                          \<lparr>events = [ev0, ev1] @ evs @
                             [Log INFO (''Update available: '' @ latest_version),
                              Emit (update_available latest_version (current_version self))],
                           raised = None\<rparr>
                        else
                          \<lparr>events = [ev0, ev1] @ evs @
                             [Log INFO ''Already running latest version'',
                              Emit (no_update (current_version self))],
                           raised = None\<rparr>)))"

text \<open>\<open>run\<close>: the \<open>try\<close> block, then the first handler whose class the exception has.\<close>

definition run :: "UpdateChecker \<Rightarrow> (request \<Rightarrow> nat \<Rightarrow> fetched) \<Rightarrow> outcome" where
  "run self urlopen =
     (let r = try_block self urlopen
      in case raised r of
           None \<Rightarrow> r
         | Some (URLError reason) \<Rightarrow>
             \<lparr>events = events r @
                [Log ERROR (''Network error: '' @ reason),
                 Emit (check_failed (''Network error: '' @ reason))],
              raised = None\<rparr>
         | Some TimeoutError \<Rightarrow>
             \<lparr>events = events r @
                [Log ERROR ''Request timed out'', Emit (check_failed ''Request timed out'')],
              raised = None\<rparr>
         | Some (OtherException e) \<Rightarrow>
             \<lparr>events = events r @
                [Log ERROR (''Error checking for updates: '' @ e),
                 Emit (check_failed (''Error checking for updates: '' @ e))],
              raised = None\<rparr>)"

section \<open>The interpreter's limit on integer strings\<close>

text \<open>
  \<open>int\<close> reads the limit \<open>sys.get_int_max_str_digits()\<close> of the interpreter when it is
  called. \<open>py_int_at lim\<close> is \<open>int\<close> under the limit \<open>lim\<close>, where 0 stands for no limit;
  \<open>int\<close> consults the limit only for more digits than
  \<open>sys.int_info.str_digits_check_threshold\<close>. \<open>is_newer_at lim\<close> is \<open>_is_newer\<close> under the
  limit \<open>lim\<close>; \<open>py_int\<close> and \<open>is_newer\<close> above are these at the default limit (lemmas
  \<open>py_int_at_default\<close> and \<open>is_newer_at_default\<close>).
\<close>

definition str_digits_check_threshold :: nat where
  "str_digits_check_threshold = 640"

definition digits_at :: "nat \<Rightarrow> string \<Rightarrow> nat option" where
  "digits_at lim s =
     (case s of
        [] \<Rightarrow> None
      | c # cs \<Rightarrow>
          if length (filter isdigit s) > str_digits_check_threshold \<and> lim > 0 \<and>
             length (filter isdigit s) > lim then None
          else if isdigit c then digits_from (digit_value c) cs
          else None)"

definition py_int_at :: "nat \<Rightarrow> string \<Rightarrow> int option" where
  "py_int_at lim x =
     (case strip x of
        [] \<Rightarrow> None
      | c # cs \<Rightarrow>
          if c = CHR ''-'' then map_option (\<lambda>n. - int n) (digits_at lim cs)
          else if c = CHR ''+'' then map_option int (digits_at lim cs)
          else map_option int (digits_at lim (c # cs)))"

fun ints_at :: "nat \<Rightarrow> string list \<Rightarrow> int list option" where
  "ints_at lim [] = Some []"
| "ints_at lim (x # xs) =
     (case py_int_at lim x of
        None \<Rightarrow> None
      | Some n \<Rightarrow> (case ints_at lim xs of None \<Rightarrow> None | Some ns \<Rightarrow> Some (n # ns)))"

definition is_newer_at :: "nat \<Rightarrow> UpdateChecker \<Rightarrow> string \<Rightarrow> string \<Rightarrow> bool \<times> event list" where
  "is_newer_at lim self latest current =
     (case ints_at lim (split latest CHR ''.'') of
        None \<Rightarrow>
          (False, [Log WARNING (''Could not parse versions: '' @ latest @ '' vs '' @ current)])
      | Some latest_parts \<Rightarrow>
          (case ints_at lim (split current CHR ''.'') of
             None \<Rightarrow>
               (False, [Log WARNING (''Could not parse versions: '' @ latest @ '' vs '' @ current)])
           | Some current_parts \<Rightarrow> (list_gt latest_parts current_parts, [])))"

section \<open>The pattern read as a scanner\<close>

text \<open>
  What the claims call a token \<^verbatim>\<open>VERSION = "<value>"\<close>, read from left to right with no
  backtracking: \<open>token_scan s\<close> is the offset and the text of the value when such a token
  starts at the head of \<open>s\<close>. These definitions are not taken from the source; lemma
  \<open>rmatch_VERSION_RE\<close> proves that the engine computes them on the pattern, and lemma
  \<open>token_scan_iff\<close> says which strings they accept.
\<close>

definition is_quote :: "char \<Rightarrow> bool" where
  "is_quote c = (c = squote \<or> c = dquote)"

definition value_scan :: "string \<Rightarrow> string option" where
  "value_scan s =
     (if takeWhile (\<lambda>c. \<not> is_quote c) s = [] \<or> dropWhile (\<lambda>c. \<not> is_quote c) s = [] then None
      else Some (takeWhile (\<lambda>c. \<not> is_quote c) s))"

definition quoted_scan :: "string \<Rightarrow> (nat \<times> string) option" where
  "quoted_scan s =
     (case dropWhile isspace s of
        [] \<Rightarrow> None
      | q # s' \<Rightarrow>
          if is_quote q
          then map_option (\<lambda>v. (length (takeWhile isspace s) + 1, v)) (value_scan s')
          else None)"

definition assign_scan :: "string \<Rightarrow> (nat \<times> string) option" where
  "assign_scan s =
     (case dropWhile isspace s of
        [] \<Rightarrow> None
      | c # s' \<Rightarrow>
          if c = CHR ''=''
          then map_option (\<lambda>(b, v). (length (takeWhile isspace s) + 1 + b, v)) (quoted_scan s')
          else None)"

definition token_scan :: "string \<Rightarrow> (nat \<times> string) option" where
  "token_scan s =
     (if prefix ''VERSION'' s
      then map_option (\<lambda>(b, v). (7 + b, v)) (assign_scan (drop 7 s))
      else None)"

definition token_value :: "string \<Rightarrow> string option" where
  "token_value s = map_option snd (token_scan s)"

section \<open>The engine on the pattern\<close>

lemma rmatch_lits:
  "rmatch (lits w @ ns) s i g =
     (if prefix w s then rmatch ns (drop (length w) s) (i + length w) g else None)"
proof (induction w arbitrary: s i)
  case Nil
  then show ?case by (simp add: lits_def)
next
  case (Cons a w)
  then show ?case by (cases s) (auto simp: lits_def)
qed

lemma rmatch_One:
  "rmatch (One a # ns) s i g =
     (case s of [] \<Rightarrow> None | c # cs \<Rightarrow> if atom_matches a c then rmatch ns cs (Suc i) g else None)"
  by (cases s) simp_all

lemma rmatch_Star_skip:
  assumes "\<And>c cs j h. atom_matches a c \<Longrightarrow> rmatch ns (c # cs) j h = None"
  shows "rmatch (Star a # ns) s i g =
           rmatch ns (dropWhile (atom_matches a) s) (i + length (takeWhile (atom_matches a) s)) g"
  using assms by (induction s arbitrary: i) (auto split: option.splits)

lemma rmatch_Plus_skip:
  assumes "\<And>c cs j h. atom_matches a c \<Longrightarrow> rmatch ns (c # cs) j h = None"
  shows "rmatch (Plus a # ns) s i g =
           (if takeWhile (atom_matches a) s = [] then None
            else rmatch ns (dropWhile (atom_matches a) s)
                   (i + length (takeWhile (atom_matches a) s)) g)"
  using rmatch_Star_skip [OF assms] by (cases s) simp_all

lemma space_not_eq: "isspace c \<Longrightarrow> c \<noteq> CHR ''=''"
  by (auto simp: isspace_def)

lemma space_not_quote: "isspace c \<Longrightarrow> \<not> is_quote c"
  by (auto simp: isspace_def is_quote_def squote_def dquote_def)

lemma atom_Space: "atom_matches Space = isspace"
  by (rule ext) simp

lemma atom_NoneOf: "atom_matches (NoneOf [squote, dquote]) = (\<lambda>c. \<not> is_quote c)"
  by (rule ext) (simp add: is_quote_def)

lemma atom_AnyOf: "atom_matches (AnyOf [squote, dquote]) c = is_quote c"
  by (simp add: is_quote_def)

lemma star_space_eq:
  "rmatch (Star Space # One (Lit CHR ''='') # ns) s i g =
     rmatch (One (Lit CHR ''='') # ns) (dropWhile isspace s) (i + length (takeWhile isspace s)) g"
  using rmatch_Star_skip [of Space "One (Lit CHR ''='') # ns" s i g]
  by (simp add: space_not_eq atom_Space)

lemma star_space_quote:
  "rmatch (Star Space # One (AnyOf [squote, dquote]) # ns) s i g =
     rmatch (One (AnyOf [squote, dquote]) # ns) (dropWhile isspace s)
       (i + length (takeWhile isspace s)) g"
  using rmatch_Star_skip [of Space "One (AnyOf [squote, dquote]) # ns" s i g] space_not_quote
  by (simp add: atom_Space is_quote_def)

lemma plus_value_quote:
  "rmatch [Plus (NoneOf [squote, dquote]), GroupClose, One (AnyOf [squote, dquote])] s i g =
     (if takeWhile (\<lambda>c. \<not> is_quote c) s = [] then None
      else rmatch [GroupClose, One (AnyOf [squote, dquote])] (dropWhile (\<lambda>c. \<not> is_quote c) s)
             (i + length (takeWhile (\<lambda>c. \<not> is_quote c) s)) g)"
proof -
  have "rmatch [GroupClose, One (AnyOf [squote, dquote])] (c # cs) j h = None"
    if "atom_matches (NoneOf [squote, dquote]) c" for c cs j h
    using that by simp
  from rmatch_Plus_skip [of "NoneOf [squote, dquote]"
      "[GroupClose, One (AnyOf [squote, dquote])]" s i g, OF this]
  show ?thesis unfolding atom_NoneOf .
qed

lemma rmatch_value:
  "rmatch [Plus (NoneOf [squote, dquote]), GroupClose, One (AnyOf [squote, dquote])] s i g =
     (case value_scan s of
        None \<Rightarrow> None
      | Some v \<Rightarrow> Some (i + length v + 1, (fst g, Some (fst g, i + length v))))"
proof (cases "dropWhile (\<lambda>c. \<not> is_quote c) s")
  case Nil
  show ?thesis unfolding plus_value_quote value_scan_def Nil by simp
next
  case (Cons q rest)
  with hd_dropWhile [of "\<lambda>c. \<not> is_quote c" s] have "is_quote q" by simp
  then have "q \<in> set [squote, dquote]" by (simp add: is_quote_def)
  then show ?thesis unfolding plus_value_quote value_scan_def Cons by simp
qed

lemma rmatch_quoted:
  "rmatch [Star Space, One (AnyOf [squote, dquote]), GroupOpen,
           Plus (NoneOf [squote, dquote]), GroupClose, One (AnyOf [squote, dquote])] s i g =
     (case quoted_scan s of
        None \<Rightarrow> None
      | Some (b, v) \<Rightarrow> Some (i + b + length v + 1, (i + b, Some (i + b, i + b + length v))))"
proof (cases "dropWhile isspace s")
  case Nil
  show ?thesis unfolding star_space_quote quoted_scan_def Nil by simp
next
  case (Cons q rest)
  show ?thesis unfolding star_space_quote quoted_scan_def Cons
    by (simp add: rmatch_value is_quote_def split: option.splits)
qed

lemma rmatch_assign:
  "rmatch [Star Space, One (Lit CHR ''=''), Star Space, One (AnyOf [squote, dquote]), GroupOpen,
           Plus (NoneOf [squote, dquote]), GroupClose, One (AnyOf [squote, dquote])] s i g =
     (case assign_scan s of
        None \<Rightarrow> None
      | Some (b, v) \<Rightarrow> Some (i + b + length v + 1, (i + b, Some (i + b, i + b + length v))))"
proof (cases "dropWhile isspace s")
  case Nil
  show ?thesis unfolding star_space_eq assign_scan_def Nil by simp
next
  case (Cons c rest)
  show ?thesis unfolding star_space_eq assign_scan_def Cons
    by (simp add: rmatch_quoted split: option.splits)
qed

lemma rmatch_VERSION_RE:
  "rmatch VERSION_RE s k g =
     (case token_scan s of
        None \<Rightarrow> None
      | Some (b, v) \<Rightarrow> Some (k + b + length v + 1, (k + b, Some (k + b, k + b + length v))))"
proof -
  have seven: "length ''VERSION'' = 7" by simp
  show ?thesis
    unfolding VERSION_RE_def rmatch_lits rmatch_assign token_scan_def seven
    by (simp split: option.splits)
qed

section \<open>The strings the scanner accepts\<close>

lemma span_iff:
  "(takeWhile P s = ws \<and> dropWhile P s = x # r) \<longleftrightarrow> (s = ws @ x # r \<and> list_all P ws \<and> \<not> P x)"
proof
  assume a: "takeWhile P s = ws \<and> dropWhile P s = x # r"
  then have "s = ws @ x # r" using takeWhile_dropWhile_id [of P s] by simp
  moreover have "list_all P ws" using a by (auto simp: list_all_iff dest: set_takeWhileD)
  moreover have "\<not> P x" using a hd_dropWhile [of P s] by simp
  ultimately show "s = ws @ x # r \<and> list_all P ws \<and> \<not> P x" by simp
next
  assume "s = ws @ x # r \<and> list_all P ws \<and> \<not> P x"
  then show "takeWhile P s = ws \<and> dropWhile P s = x # r"
    by (simp add: list_all_iff)
qed

lemma value_scan_iff:
  "value_scan s = Some v \<longleftrightarrow>
     (\<exists>q post. s = v @ q # post \<and> is_quote q \<and> v \<noteq> [] \<and> list_all (\<lambda>c. \<not> is_quote c) v)"
proof
  assume a: "value_scan s = Some v"
  then have v: "takeWhile (\<lambda>c. \<not> is_quote c) s = v" "v \<noteq> []"
    and d: "dropWhile (\<lambda>c. \<not> is_quote c) s \<noteq> []"
    by (auto simp: value_scan_def split: if_splits)
  from d obtain q post where "dropWhile (\<lambda>c. \<not> is_quote c) s = q # post"
    by (cases "dropWhile (\<lambda>c. \<not> is_quote c) s") auto
  with v span_iff [of "\<lambda>c. \<not> is_quote c" s v q post]
  show "\<exists>q post. s = v @ q # post \<and> is_quote q \<and> v \<noteq> [] \<and> list_all (\<lambda>c. \<not> is_quote c) v"
    by auto
next
  assume "\<exists>q post. s = v @ q # post \<and> is_quote q \<and> v \<noteq> [] \<and> list_all (\<lambda>c. \<not> is_quote c) v"
  then obtain q post where a: "s = v @ q # post" "is_quote q" "v \<noteq> []" "list_all (\<lambda>c. \<not> is_quote c) v"
    by blast
  with span_iff [of "\<lambda>c. \<not> is_quote c" s v q post]
  have "takeWhile (\<lambda>c. \<not> is_quote c) s = v" "dropWhile (\<lambda>c. \<not> is_quote c) s = q # post"
    by auto
  with a show "value_scan s = Some v" by (simp add: value_scan_def)
qed

lemma quoted_scan_iff:
  "quoted_scan s = Some (b, v) \<longleftrightarrow>
     (\<exists>ws q1 q2 post. s = ws @ q1 # v @ q2 # post \<and> list_all isspace ws \<and>
        is_quote q1 \<and> is_quote q2 \<and> v \<noteq> [] \<and> list_all (\<lambda>c. \<not> is_quote c) v \<and>
        b = length ws + 1)"
proof
  assume a: "quoted_scan s = Some (b, v)"
  then obtain q1 s' where d: "dropWhile isspace s = q1 # s'"
    by (cases "dropWhile isspace s") (auto simp: quoted_scan_def)
  with a have q1: "is_quote q1" and v: "value_scan s' = Some v"
    and b: "b = length (takeWhile isspace s) + 1"
    by (auto simp: quoted_scan_def split: if_splits)
  from d span_iff [of isspace s "takeWhile isspace s" q1 s']
  have s: "s = takeWhile isspace s @ q1 # s'" "list_all isspace (takeWhile isspace s)" by auto
  from v obtain q2 post where
    "s' = v @ q2 # post" "is_quote q2" "v \<noteq> []" "list_all (\<lambda>c. \<not> is_quote c) v"
    unfolding value_scan_iff by blast
  with s q1 b show "\<exists>ws q1 q2 post. s = ws @ q1 # v @ q2 # post \<and> list_all isspace ws \<and>
        is_quote q1 \<and> is_quote q2 \<and> v \<noteq> [] \<and> list_all (\<lambda>c. \<not> is_quote c) v \<and>
        b = length ws + 1"
    by metis
next
  assume "\<exists>ws q1 q2 post. s = ws @ q1 # v @ q2 # post \<and> list_all isspace ws \<and>
        is_quote q1 \<and> is_quote q2 \<and> v \<noteq> [] \<and> list_all (\<lambda>c. \<not> is_quote c) v \<and>
        b = length ws + 1"
  then obtain ws q1 q2 post where a: "s = ws @ q1 # v @ q2 # post" "list_all isspace ws"
    "is_quote q1" "is_quote q2" "v \<noteq> []" "list_all (\<lambda>c. \<not> is_quote c) v" "b = length ws + 1"
    by blast
  from a(3) have "\<not> isspace q1" using space_not_quote by blast
  with a span_iff [of isspace s ws q1 "v @ q2 # post"]
  have t: "takeWhile isspace s = ws" "dropWhile isspace s = q1 # v @ q2 # post" by auto
  have "value_scan (v @ q2 # post) = Some v" unfolding value_scan_iff using a by blast
  with t a show "quoted_scan s = Some (b, v)" by (simp add: quoted_scan_def)
qed

lemma assign_scan_iff:
  "assign_scan s = Some (b, v) \<longleftrightarrow>
     (\<exists>ws1 ws2 q1 q2 post. s = ws1 @ CHR ''='' # ws2 @ q1 # v @ q2 # post \<and>
        list_all isspace ws1 \<and> list_all isspace ws2 \<and>
        is_quote q1 \<and> is_quote q2 \<and> v \<noteq> [] \<and> list_all (\<lambda>c. \<not> is_quote c) v \<and>
        b = length ws1 + 1 + length ws2 + 1)"
proof
  assume a: "assign_scan s = Some (b, v)"
  then obtain c s' where d: "dropWhile isspace s = c # s'"
    by (cases "dropWhile isspace s") (auto simp: assign_scan_def)
  with a obtain b' where c: "c = CHR ''=''" and v: "quoted_scan s' = Some (b', v)"
    and b: "b = length (takeWhile isspace s) + 1 + b'"
    by (auto simp: assign_scan_def split: if_splits)
  from d span_iff [of isspace s "takeWhile isspace s" c s']
  have s: "s = takeWhile isspace s @ c # s'" "list_all isspace (takeWhile isspace s)" by auto
  from v obtain ws2 q1 q2 post where
    "s' = ws2 @ q1 # v @ q2 # post" "list_all isspace ws2" "is_quote q1" "is_quote q2"
    "v \<noteq> []" "list_all (\<lambda>c. \<not> is_quote c) v" "b' = length ws2 + 1"
    unfolding quoted_scan_iff by blast
  with s c b show "\<exists>ws1 ws2 q1 q2 post. s = ws1 @ CHR ''='' # ws2 @ q1 # v @ q2 # post \<and>
        list_all isspace ws1 \<and> list_all isspace ws2 \<and>
        is_quote q1 \<and> is_quote q2 \<and> v \<noteq> [] \<and> list_all (\<lambda>c. \<not> is_quote c) v \<and>
        b = length ws1 + 1 + length ws2 + 1"
    by (metis add.assoc)
next
  assume "\<exists>ws1 ws2 q1 q2 post. s = ws1 @ CHR ''='' # ws2 @ q1 # v @ q2 # post \<and>
        list_all isspace ws1 \<and> list_all isspace ws2 \<and>
        is_quote q1 \<and> is_quote q2 \<and> v \<noteq> [] \<and> list_all (\<lambda>c. \<not> is_quote c) v \<and>
        b = length ws1 + 1 + length ws2 + 1"
  then obtain ws1 ws2 q1 q2 post where a: "s = ws1 @ CHR ''='' # ws2 @ q1 # v @ q2 # post"
    "list_all isspace ws1" "list_all isspace ws2" "is_quote q1" "is_quote q2" "v \<noteq> []"
    "list_all (\<lambda>c. \<not> is_quote c) v" "b = length ws1 + 1 + length ws2 + 1"
    by blast
  have "\<not> isspace CHR ''=''" using space_not_eq by blast
  with a span_iff [of isspace s ws1 "CHR ''=''" "ws2 @ q1 # v @ q2 # post"]
  have t: "takeWhile isspace s = ws1" "dropWhile isspace s = CHR ''='' # ws2 @ q1 # v @ q2 # post"
    by auto
  have "quoted_scan (ws2 @ q1 # v @ q2 # post) = Some (length ws2 + 1, v)"
    unfolding quoted_scan_iff using a by blast
  with t a show "assign_scan s = Some (b, v)" by (simp add: assign_scan_def)
qed

lemma token_scan_iff:
  "token_scan s = Some (b, v) \<longleftrightarrow>
     (\<exists>ws1 ws2 q1 q2 post.
        s = ''VERSION'' @ ws1 @ ''='' @ ws2 @ [q1] @ v @ [q2] @ post \<and>
        list_all isspace ws1 \<and> list_all isspace ws2 \<and>
        is_quote q1 \<and> is_quote q2 \<and> v \<noteq> [] \<and> list_all (\<lambda>c. \<not> is_quote c) v \<and>
        b = 7 + length ws1 + 1 + length ws2 + 1)"
proof
  assume a: "token_scan s = Some (b, v)"
  then obtain b' where p: "prefix ''VERSION'' s" and v: "assign_scan (drop 7 s) = Some (b', v)"
    and b: "b = 7 + b'"
    by (auto simp: token_scan_def split: if_splits)
  from p obtain s' where s: "s = ''VERSION'' @ s'" by (auto simp: prefix_def)
  then have "drop 7 s = s'" by simp
  with v obtain ws1 ws2 q1 q2 post where
    "s' = ws1 @ CHR ''='' # ws2 @ q1 # v @ q2 # post"
    "list_all isspace ws1" "list_all isspace ws2" "is_quote q1" "is_quote q2"
    "v \<noteq> []" "list_all (\<lambda>c. \<not> is_quote c) v" "b' = length ws1 + 1 + length ws2 + 1"
    unfolding assign_scan_iff by blast
  with s b have "s = ''VERSION'' @ ws1 @ ''='' @ ws2 @ [q1] @ v @ [q2] @ post \<and>
        list_all isspace ws1 \<and> list_all isspace ws2 \<and>
        is_quote q1 \<and> is_quote q2 \<and> v \<noteq> [] \<and> list_all (\<lambda>c. \<not> is_quote c) v \<and>
        b = 7 + length ws1 + 1 + length ws2 + 1"
    by simp
  then show "\<exists>ws1 ws2 q1 q2 post.
        s = ''VERSION'' @ ws1 @ ''='' @ ws2 @ [q1] @ v @ [q2] @ post \<and>
        list_all isspace ws1 \<and> list_all isspace ws2 \<and>
        is_quote q1 \<and> is_quote q2 \<and> v \<noteq> [] \<and> list_all (\<lambda>c. \<not> is_quote c) v \<and>
        b = 7 + length ws1 + 1 + length ws2 + 1"
    by blast
next
  assume "\<exists>ws1 ws2 q1 q2 post.
        s = ''VERSION'' @ ws1 @ ''='' @ ws2 @ [q1] @ v @ [q2] @ post \<and>
        list_all isspace ws1 \<and> list_all isspace ws2 \<and>
        is_quote q1 \<and> is_quote q2 \<and> v \<noteq> [] \<and> list_all (\<lambda>c. \<not> is_quote c) v \<and>
        b = 7 + length ws1 + 1 + length ws2 + 1"
  then obtain ws1 ws2 q1 q2 post where
    a: "s = ''VERSION'' @ ws1 @ ''='' @ ws2 @ [q1] @ v @ [q2] @ post"
    "list_all isspace ws1" "list_all isspace ws2" "is_quote q1" "is_quote q2" "v \<noteq> []"
    "list_all (\<lambda>c. \<not> is_quote c) v" "b = 7 + length ws1 + 1 + length ws2 + 1"
    by blast
  have "assign_scan (ws1 @ CHR ''='' # ws2 @ q1 # v @ q2 # post) = Some (length ws1 + 1 + length ws2 + 1, v)"
    unfolding assign_scan_iff using a by blast
  with a show "token_scan s = Some (b, v)" by (simp add: token_scan_def)
qed

lemma token_scan_value:
  assumes "token_scan s = Some (b, v)"
  shows "take (length v) (drop b s) = v"
proof -
  from assms obtain ws1 ws2 q1 q2 post where
    s: "s = ''VERSION'' @ ws1 @ ''='' @ ws2 @ [q1] @ v @ [q2] @ post"
    and b: "b = 7 + length ws1 + 1 + length ws2 + 1"
    unfolding token_scan_iff by blast
  have "s = (''VERSION'' @ ws1 @ ''='' @ ws2 @ [q1]) @ v @ [q2] @ post" using s by simp
  moreover have "length (''VERSION'' @ ws1 @ ''='' @ ws2 @ [q1]) = b" using b by simp
  ultimately have "drop b s = v @ [q2] @ post" by (metis append_eq_conv_conj)
  then show ?thesis by simp
qed

section \<open>The search\<close>

lemma all_le_Suc: "(\<forall>i\<le>Suc n. P i) \<longleftrightarrow> P 0 \<and> (\<forall>i\<le>n. P (Suc i))"
  by (metis Suc_le_mono le0 not0_implies_Suc)

lemma search_from_None_iff:
  "search_from ns s k = None \<longleftrightarrow> (\<forall>i\<le>length s. rmatch ns (drop i s) (k + i) (0, None) = None)"
proof (induction s arbitrary: k)
  case Nil
  show ?case by (simp split: option.splits)
next
  case (Cons c cs)
  show ?case
    by (simp add: Cons.IH all_le_Suc split: option.splits)
qed

lemma search_from_Some_iff:
  "search_from ns s k = Some m \<longleftrightarrow>
     (\<exists>i\<le>length s. (\<forall>j<i. rmatch ns (drop j s) (k + j) (0, None) = None) \<and>
        (\<exists>e g. rmatch ns (drop i s) (k + i) (0, None) = Some (e, g) \<and>
           m = \<lparr>span = (k + i, e), span1 = snd g\<rparr>))"
proof (induction s arbitrary: k)
  case Nil
  show ?case by (auto split: option.splits)
next
  case (Cons c cs)
  show ?case
  proof (cases "rmatch ns (c # cs) k (0, None)")
    case None
    have "search_from ns (c # cs) k = Some m \<longleftrightarrow> search_from ns cs (Suc k) = Some m"
      using None by simp
    also have "\<dots> \<longleftrightarrow> (\<exists>i\<le>length cs. (\<forall>j<i. rmatch ns (drop j cs) (Suc k + j) (0, None) = None) \<and>
        (\<exists>e g. rmatch ns (drop i cs) (Suc k + i) (0, None) = Some (e, g) \<and>
           m = \<lparr>span = (Suc k + i, e), span1 = snd g\<rparr>))"
      by (rule Cons.IH)
    also have "\<dots> \<longleftrightarrow> (\<exists>i\<le>length (c # cs). (\<forall>j<i. rmatch ns (drop j (c # cs)) (k + j) (0, None) = None) \<and>
        (\<exists>e g. rmatch ns (drop i (c # cs)) (k + i) (0, None) = Some (e, g) \<and>
           m = \<lparr>span = (k + i, e), span1 = snd g\<rparr>))"
    proof
      assume "\<exists>i\<le>length cs. (\<forall>j<i. rmatch ns (drop j cs) (Suc k + j) (0, None) = None) \<and>
        (\<exists>e g. rmatch ns (drop i cs) (Suc k + i) (0, None) = Some (e, g) \<and>
           m = \<lparr>span = (Suc k + i, e), span1 = snd g\<rparr>)"
      then obtain i where i: "i \<le> length cs"
        "\<forall>j<i. rmatch ns (drop j cs) (Suc k + j) (0, None) = None"
        "\<exists>e g. rmatch ns (drop i cs) (Suc k + i) (0, None) = Some (e, g) \<and>
           m = \<lparr>span = (Suc k + i, e), span1 = snd g\<rparr>"
        by blast
      have "\<forall>j<Suc i. rmatch ns (drop j (c # cs)) (k + j) (0, None) = None"
        using i(2) None by (simp add: All_less_Suc2)
      with i(1,3) show "\<exists>i\<le>length (c # cs). (\<forall>j<i. rmatch ns (drop j (c # cs)) (k + j) (0, None) = None) \<and>
        (\<exists>e g. rmatch ns (drop i (c # cs)) (k + i) (0, None) = Some (e, g) \<and>
           m = \<lparr>span = (k + i, e), span1 = snd g\<rparr>)"
        by (intro exI [of _ "Suc i"]) simp
    next
      assume "\<exists>i\<le>length (c # cs). (\<forall>j<i. rmatch ns (drop j (c # cs)) (k + j) (0, None) = None) \<and>
        (\<exists>e g. rmatch ns (drop i (c # cs)) (k + i) (0, None) = Some (e, g) \<and>
           m = \<lparr>span = (k + i, e), span1 = snd g\<rparr>)"
      then obtain i where i: "i \<le> length (c # cs)"
        "\<forall>j<i. rmatch ns (drop j (c # cs)) (k + j) (0, None) = None"
        "\<exists>e g. rmatch ns (drop i (c # cs)) (k + i) (0, None) = Some (e, g) \<and>
           m = \<lparr>span = (k + i, e), span1 = snd g\<rparr>"
        by blast
      from i(3) None obtain i' where i': "i = Suc i'" by (cases i) auto
      with i(2) have "\<forall>j<i'. rmatch ns (drop j cs) (Suc k + j) (0, None) = None"
        by (simp add: All_less_Suc2)
      with i(1,3) i' show "\<exists>i\<le>length cs. (\<forall>j<i. rmatch ns (drop j cs) (Suc k + j) (0, None) = None) \<and>
        (\<exists>e g. rmatch ns (drop i cs) (Suc k + i) (0, None) = Some (e, g) \<and>
           m = \<lparr>span = (Suc k + i, e), span1 = snd g\<rparr>)"
        by (intro exI [of _ i']) simp
    qed
    finally show ?thesis .
  next
    case (Some r)
    obtain e g where r: "r = (e, g)" by (cases r)
    have l: "search_from ns (c # cs) k = Some m \<longleftrightarrow> m = \<lparr>span = (k, e), span1 = snd g\<rparr>"
      using Some r by auto
    have "(\<exists>i\<le>length (c # cs). (\<forall>j<i. rmatch ns (drop j (c # cs)) (k + j) (0, None) = None) \<and>
        (\<exists>e g. rmatch ns (drop i (c # cs)) (k + i) (0, None) = Some (e, g) \<and>
           m = \<lparr>span = (k + i, e), span1 = snd g\<rparr>)) \<longleftrightarrow> m = \<lparr>span = (k, e), span1 = snd g\<rparr>"
    proof
      assume "\<exists>i\<le>length (c # cs). (\<forall>j<i. rmatch ns (drop j (c # cs)) (k + j) (0, None) = None) \<and>
        (\<exists>e g. rmatch ns (drop i (c # cs)) (k + i) (0, None) = Some (e, g) \<and>
           m = \<lparr>span = (k + i, e), span1 = snd g\<rparr>)"
      then obtain i where i:
        "\<forall>j<i. rmatch ns (drop j (c # cs)) (k + j) (0, None) = None"
        "\<exists>e g. rmatch ns (drop i (c # cs)) (k + i) (0, None) = Some (e, g) \<and>
           m = \<lparr>span = (k + i, e), span1 = snd g\<rparr>"
        by blast
      have "i = 0"
      proof (rule ccontr)
        assume "i \<noteq> 0"
        then have "rmatch ns (drop 0 (c # cs)) (k + 0) (0, None) = None" using i(1) by blast
        with Some show False by simp
      qed
      with i(2) Some r show "m = \<lparr>span = (k, e), span1 = snd g\<rparr>" by simp
    next
      assume "m = \<lparr>span = (k, e), span1 = snd g\<rparr>"
      with Some r show "\<exists>i\<le>length (c # cs). (\<forall>j<i. rmatch ns (drop j (c # cs)) (k + j) (0, None) = None) \<and>
        (\<exists>e g. rmatch ns (drop i (c # cs)) (k + i) (0, None) = Some (e, g) \<and>
           m = \<lparr>span = (k + i, e), span1 = snd g\<rparr>)"
        by (intro exI [of _ 0]) simp
    qed
    with l show ?thesis by simp
  qed
qed

lemma rmatch_VERSION_RE_None:
  "rmatch VERSION_RE s k g = None \<longleftrightarrow> token_scan s = None"
  by (simp add: rmatch_VERSION_RE split: option.splits)

lemma rmatch_VERSION_RE_Some:
  "rmatch VERSION_RE s k g = Some (e, h) \<longleftrightarrow>
     (\<exists>b v. token_scan s = Some (b, v) \<and> e = k + b + length v + 1 \<and>
        h = (k + b, Some (k + b, k + b + length v)))"
  by (auto simp: rmatch_VERSION_RE split: option.splits)

lemma re_search_VERSION_RE_Some:
  "re_search VERSION_RE content = Some m \<longleftrightarrow>
     (\<exists>i\<le>length content. (\<forall>j<i. token_scan (drop j content) = None) \<and>
        (\<exists>b v. token_scan (drop i content) = Some (b, v) \<and>
           m = \<lparr>span = (i, i + b + length v + 1), span1 = Some (i + b, i + b + length v)\<rparr>))"
  unfolding re_search_def search_from_Some_iff rmatch_VERSION_RE_None rmatch_VERSION_RE_Some
  by auto

lemma re_search_VERSION_RE_None:
  "re_search VERSION_RE content = None \<longleftrightarrow>
     (\<forall>i\<le>length content. token_scan (drop i content) = None)"
  unfolding re_search_def search_from_None_iff rmatch_VERSION_RE_None by simp

lemma group1_token:
  assumes "token_scan (drop i content) = Some (b, v)"
  shows "group1 content \<lparr>span = sp, span1 = Some (i + b, i + b + length v)\<rparr> = Some v"
proof -
  from token_scan_value [OF assms] have "take (length v) (drop (i + b) content) = v"
    by (simp add: add.commute)
  then show ?thesis by (simp add: group1_def)
qed

lemma parse_version_None_iff:
  "parse_version self content = None \<longleftrightarrow> (\<forall>i\<le>length content. token_value (drop i content) = None)"
proof (cases "re_search VERSION_RE content")
  case None
  then show ?thesis
    using re_search_VERSION_RE_None [of content] by (simp add: parse_version_def token_value_def)
next
  case (Some m)
  then obtain i b v where i: "i \<le> length content" "token_scan (drop i content) = Some (b, v)"
    "m = \<lparr>span = (i, i + b + length v + 1), span1 = Some (i + b, i + b + length v)\<rparr>"
    unfolding re_search_VERSION_RE_Some by blast
  have "parse_version self content = Some v"
    using Some i(3) group1_token [OF i(2)] by (simp add: parse_version_def)
  moreover have "token_value (drop i content) \<noteq> None" using i(2) by (simp add: token_value_def)
  ultimately show ?thesis using i(1) by auto
qed

lemma parse_version_Some_iff:
  "parse_version self content = Some v \<longleftrightarrow>
     (\<exists>i\<le>length content. (\<forall>j<i. token_value (drop j content) = None) \<and>
        token_value (drop i content) = Some v)"
proof
  assume "parse_version self content = Some v"
  then obtain m where m: "re_search VERSION_RE content = Some m" and g: "group1 content m = Some v"
    by (auto simp: parse_version_def split: option.splits)
  from m obtain i b w where i: "i \<le> length content"
    "\<forall>j<i. token_scan (drop j content) = None"
    "token_scan (drop i content) = Some (b, w)"
    "m = \<lparr>span = (i, i + b + length w + 1), span1 = Some (i + b, i + b + length w)\<rparr>"
    unfolding re_search_VERSION_RE_Some by blast
  from g i(4) group1_token [OF i(3)] have "v = w" by simp
  with i show "\<exists>i\<le>length content. (\<forall>j<i. token_value (drop j content) = None) \<and>
        token_value (drop i content) = Some v"
    by (auto simp: token_value_def)
next
  assume "\<exists>i\<le>length content. (\<forall>j<i. token_value (drop j content) = None) \<and>
        token_value (drop i content) = Some v"
  then obtain i b where i: "i \<le> length content"
    "\<forall>j<i. token_scan (drop j content) = None"
    "token_scan (drop i content) = Some (b, v)"
    by (auto simp: token_value_def)
  define m where "m = \<lparr>span = (i, i + b + length v + 1), span1 = Some (i + b, i + b + length v)\<rparr>"
  have "re_search VERSION_RE content = Some m"
    unfolding re_search_VERSION_RE_Some using i m_def by blast
  moreover have "group1 content m = Some v" unfolding m_def by (rule group1_token [OF i(3)])
  ultimately show "parse_version self content = Some v" by (simp add: parse_version_def)
qed

lemma token_value_iff:
  "token_value s = Some v \<longleftrightarrow>
     (\<exists>ws1 ws2 q1 q2 post.
        s = ''VERSION'' @ ws1 @ ''='' @ ws2 @ [q1] @ v @ [q2] @ post \<and>
        list_all isspace ws1 \<and> list_all isspace ws2 \<and>
        is_quote q1 \<and> is_quote q2 \<and> v \<noteq> [] \<and> list_all (\<lambda>c. \<not> is_quote c) v)"
proof -
  have "token_value s = Some v \<longleftrightarrow> (\<exists>b. token_scan s = Some (b, v))"
    by (auto simp: token_value_def)
  then show ?thesis unfolding token_scan_iff by blast
qed

lemma token_value_prefix: "token_value s \<noteq> None \<Longrightarrow> prefix ''VERSION'' s"
  by (auto simp: token_value_def token_scan_def split: if_splits)

section \<open>Lists of integers\<close>

lemma list_gt_lexord: "list_gt xs ys \<longleftrightarrow> (ys, xs) \<in> lexord {(a, b). a < b}"
  by (induction xs ys rule: list_gt.induct) (auto simp: neq_Nil_conv)

lemma lexord_explicit:
  "(ys, xs) \<in> lexord {(a, b). a < b} \<longleftrightarrow>
     strict_prefix ys xs \<or> (\<exists>u a b v w. ys = u @ a # v \<and> xs = u @ b # w \<and> a < b)"
proof -
  have "strict_prefix ys xs \<longleftrightarrow> (\<exists>a v. xs = ys @ a # v)"
    by (auto elim: strict_prefixE' intro: strict_prefixI')
  then show ?thesis by (simp only: lexord_def mem_Collect_eq prod.case) blast
qed

lemma ints_Some_D: "ints xs = Some ns \<Longrightarrow> list_all2 (\<lambda>x n. py_int x = Some n) xs ns"
  by (induction xs arbitrary: ns) (auto split: option.splits)

lemma ints_Some_I: "list_all2 (\<lambda>x n. py_int x = Some n) xs ns \<Longrightarrow> ints xs = Some ns"
  by (induction rule: list_all2_induct) auto

lemma ints_Some_iff: "ints xs = Some ns \<longleftrightarrow> list_all2 (\<lambda>x n. py_int x = Some n) xs ns"
  using ints_Some_D ints_Some_I by blast

lemma ints_None_iff: "ints xs = None \<longleftrightarrow> (\<exists>x\<in>set xs. py_int x = None)"
  by (induction xs) (auto split: option.splits)

lemma set_strip: "set (strip x) \<subseteq> set x"
proof -
  have "set (dropWhile int_isspace (rev (dropWhile int_isspace x))) \<subseteq> set (rev (dropWhile int_isspace x))"
    by (auto dest: set_dropWhileD)
  also have "\<dots> \<subseteq> set x" by (auto dest: set_dropWhileD)
  finally show ?thesis by (simp add: strip_def)
qed

lemma py_int_negative:
  assumes "py_int x = Some n" and "n < 0"
  shows "CHR ''-'' \<in> set x"
proof -
  from assms have "hd (strip x) = CHR ''-''" "strip x \<noteq> []"
    by (auto simp: py_int_def split: list.splits if_splits)
  then have "CHR ''-'' \<in> set (strip x)" by (metis hd_in_set)
  with set_strip show ?thesis by blast
qed

lemma set_split_acc: "x \<in> set (split_acc sep acc s) \<Longrightarrow> set x \<subseteq> set acc \<union> set s"
proof (induction s arbitrary: acc)
  case Nil
  then show ?case by simp
next
  case (Cons c cs)
  show ?case
  proof (cases "c = sep")
    case True
    with Cons.prems have "x = rev acc \<or> x \<in> set (split_acc sep [] cs)" by simp
    then show ?thesis using Cons.IH [of "[]"] by auto
  next
    case False
    with Cons.prems have "x \<in> set (split_acc sep (c # acc) cs)" by simp
    then show ?thesis using Cons.IH [of "c # acc"] by auto
  qed
qed

lemma set_split: "x \<in> set (split s sep) \<Longrightarrow> set x \<subseteq> set s"
  using set_split_acc [of x sep "[]" s] by (simp add: split_def)

lemma ints_nonneg:
  assumes "ints xs = Some ns" and "\<forall>x\<in>set xs. CHR ''-'' \<notin> set x"
  shows "list_all (\<lambda>n. 0 \<le> n) ns"
proof -
  from assms(1) have "list_all2 (\<lambda>x n. py_int x = Some n) xs ns" by (simp add: ints_Some_iff)
  then show ?thesis using assms(2)
  proof (induction rule: list_all2_induct)
    case Nil
    then show ?case by simp
  next
    case (Cons x xs n ns)
    then have "\<not> n < 0" using py_int_negative [of x n] by auto
    with Cons show ?case by simp
  qed
qed

section \<open>The limit on integer strings\<close>

lemma digits_at_default: "digits_at int_max_str_digits s = digits s"
  by (auto simp: digits_at_def digits_def int_max_str_digits_def str_digits_check_threshold_def
      split: list.splits)

lemma py_int_at_default: "py_int_at int_max_str_digits x = py_int x"
  by (simp add: py_int_at_def py_int_def digits_at_default split: list.splits)

lemma ints_at_default: "ints_at int_max_str_digits xs = ints xs"
  by (induction xs) (simp_all add: py_int_at_default split: option.splits)

lemma is_newer_at_default: "is_newer_at int_max_str_digits self latest current = is_newer self latest current"
  by (simp add: is_newer_at_def is_newer_def ints_at_default split: option.splits)

lemma digits_at_small:
  assumes "length (filter isdigit s) \<le> str_digits_check_threshold"
  shows "digits_at lim s = digits_at lim' s"
proof (cases s)
  case Nil
  then show ?thesis by (simp add: digits_at_def)
next
  case (Cons c cs)
  from assms have "\<not> str_digits_check_threshold < length (filter isdigit s)" by simp
  then show ?thesis unfolding digits_at_def Cons by simp
qed

lemma filter_dropWhile_le: "length (filter P (dropWhile Q s)) \<le> length (filter P s)"
  by (induction s) auto

lemma filter_strip_le: "length (filter isdigit (strip x)) \<le> length (filter isdigit x)"
proof -
  have "length (filter isdigit (strip x)) =
      length (filter isdigit (dropWhile int_isspace (rev (dropWhile int_isspace x))))"
    by (simp add: strip_def rev_filter [symmetric])
  also have "\<dots> \<le> length (filter isdigit (rev (dropWhile int_isspace x)))"
    by (rule filter_dropWhile_le)
  also have "\<dots> = length (filter isdigit (dropWhile int_isspace x))"
    by (simp add: rev_filter [symmetric])
  also have "\<dots> \<le> length (filter isdigit x)" by (rule filter_dropWhile_le)
  finally show ?thesis .
qed

lemma py_int_at_small:
  assumes "length (filter isdigit x) \<le> str_digits_check_threshold"
  shows "py_int_at lim x = py_int_at lim' x"
proof (cases "strip x")
  case Nil
  then show ?thesis by (simp add: py_int_at_def)
next
  case (Cons c cs)
  have "length (filter isdigit (c # cs)) \<le> str_digits_check_threshold"
    using filter_strip_le [of x] assms Cons by simp
  moreover have "length (filter isdigit cs) \<le> length (filter isdigit (c # cs))" by simp
  ultimately have "digits_at lim (c # cs) = digits_at lim' (c # cs)"
    and "digits_at lim cs = digits_at lim' cs"
    by (meson digits_at_small le_trans)+
  with Cons show ?thesis by (simp add: py_int_at_def)
qed

lemma ints_at_small:
  assumes "list_all (\<lambda>x. length (filter isdigit x) \<le> str_digits_check_threshold) xs"
  shows "ints_at lim xs = ints_at lim' xs"
  using assms by (induction xs) (simp_all add: py_int_at_small [of _ lim lim'] split: option.splits)

lemma split_acc_no_sep: "sep \<notin> set s \<Longrightarrow> split_acc sep acc s = [rev acc @ s]"
  by (induction s arbitrary: acc) auto

lemma digits_from_ones: "\<exists>k\<ge>acc. digits_from acc (replicate n CHR ''1'') = Some k"
proof (induction n arbitrary: acc)
  case 0
  show ?case by simp
next
  case (Suc n)
  from Suc [of "10 * acc + digit_value CHR ''1''"]
  obtain k where "10 * acc + digit_value CHR ''1'' \<le> k"
    "digits_from (10 * acc + digit_value CHR ''1'') (replicate n CHR ''1'') = Some k"
    by blast
  then show ?case by (intro exI [of _ k]) (simp add: isdigit_def)
qed

lemma strip_ones: "strip (replicate (Suc n) CHR ''1'') = replicate (Suc n) CHR ''1''"
proof -
  have a: "dropWhile int_isspace (replicate (Suc n) CHR ''1'') = replicate (Suc n) CHR ''1''"
    by (simp add: int_isspace_def)
  have "rev (replicate (Suc n) CHR ''1'') = replicate (Suc n) CHR ''1''" by (rule rev_replicate)
  then show ?thesis unfolding strip_def a by (simp only: a rev_replicate)
qed

lemma digits_from_ones_Suc:
  "\<exists>k\<ge>10 * acc + 1. digits_from acc (replicate (Suc n) CHR ''1'') = Some k"
  using digits_from_ones [of "10 * acc + 1" n] by (simp add: isdigit_def digit_value_def)

lemma py_int_at_ones:
  "py_int_at lim (replicate (Suc n) CHR ''1'') =
     (if Suc n > str_digits_check_threshold \<and> lim > 0 \<and> Suc n > lim then None
      else map_option int (digits_from 1 (replicate n CHR ''1'')))"
proof -
  have d: "isdigit CHR ''1''" by (simp add: isdigit_def)
  have "strip (replicate (Suc n) CHR ''1'') = CHR ''1'' # replicate n CHR ''1''"
    using strip_ones [of n] by simp
  then show ?thesis
    by (simp add: py_int_at_def digits_at_def d digit_value_def)
qed

lemma split_ones: "split (replicate n CHR ''1'') CHR ''.'' = [replicate n CHR ''1'']"
  by (simp add: split_def split_acc_no_sep)

section \<open>The signals of \<open>run\<close>\<close>

lemma signals_simps:
  "signals [] = []"
  "signals (Emit s # evs) = s # signals evs"
  "signals (Log l m # evs) = signals evs"
  "signals (xs @ ys) = signals xs @ signals ys"
  by (simp_all add: signals_def)

lemma parse_version_value:
  assumes "parse_version self content = Some v"
  shows "v \<noteq> [] \<and> list_all (\<lambda>c. \<not> is_quote c) v"
proof -
  from assms obtain i where "token_value (drop i content) = Some v"
    unfolding parse_version_Some_iff by blast
  then show ?thesis unfolding token_value_iff by blast
qed

lemma is_newer_events: "signals (snd (is_newer self latest current)) = []"
  by (simp add: is_newer_def signals_simps split: option.splits)

lemma run_Raised:
  assumes "urlopen (Request self) REQUEST_TIMEOUT = Raised e"
  shows "signals (events (run self urlopen)) =
           [check_failed (case e of
              URLError reason \<Rightarrow> ''Network error: '' @ reason
            | TimeoutError \<Rightarrow> ''Request timed out''
            | OtherException m \<Rightarrow> ''Error checking for updates: '' @ m)]"
    and "raised (run self urlopen) = None"
  using assms by (simp_all add: run_def try_block_def signals_simps Let_def split: py_exception.splits)

lemma run_no_version:
  assumes "urlopen (Request self) REQUEST_TIMEOUT = Content content"
    and "parse_version self content = None"
  shows "signals (events (run self urlopen)) = [check_failed ''Could not parse version from GitHub'']"
    and "raised (run self urlopen) = None"
  using assms by (simp_all add: run_def try_block_def signals_simps Let_def)

lemma run_version:
  assumes "urlopen (Request self) REQUEST_TIMEOUT = Content content"
    and "parse_version self content = Some latest"
  shows "signals (events (run self urlopen)) =
           [if fst (is_newer self latest (current_version self))
            then update_available latest (current_version self)
            else no_update (current_version self)]"
    and "raised (run self urlopen) = None"
proof -
  from parse_version_value [OF assms(2)] have ne: "latest \<noteq> []" by simp
  obtain newer evs where n: "is_newer self latest (current_version self) = (newer, evs)"
    by (cases "is_newer self latest (current_version self)")
  with is_newer_events [of self latest "current_version self"] have "signals evs = []" by simp
  with assms ne n show "signals (events (run self urlopen)) =
           [if fst (is_newer self latest (current_version self))
            then update_available latest (current_version self)
            else no_update (current_version self)]"
    by (simp add: run_def try_block_def signals_simps Let_def)
  from assms ne n show "raised (run self urlopen) = None"
    by (simp add: run_def try_block_def Let_def)
qed

text \<open>The definitions that evaluate the model on a concrete input.\<close>

lemmas engine_defs = parse_version_def re_search_def VERSION_RE_def lits_def group1_def
  squote_def dquote_def isspace_def

lemmas scan_defs = token_value_def token_scan_def assign_scan_def quoted_scan_def value_scan_def
  is_quote_def squote_def dquote_def isspace_def

lemmas int_defs = split_def py_int_def strip_def int_isspace_def digits_def isdigit_def
  digit_value_def int_max_str_digits_def

section \<open>The claims\<close>

text \<open>
  Claim C1. When every dot-separated segment of both version strings parses as an integer,
  \<open>_is_newer\<close> returns the lexicographic order of the two tuples of integers: the latest
  tuple is greater when the current one is a strict prefix of it, or when at the first
  index where they differ the latest component is the greater. \<open>run\<close> then emits
  \<open>update_available(latest, current)\<close> exactly when the latest tuple is strictly greater,
  and \<open>no_update(current)\<close> otherwise; equal version strings are not newer.
\<close>

theorem is_newer_lexicographic:
  assumes "list_all2 (\<lambda>x n. py_int x = Some n) (split latest CHR ''.'') lt"
    and "list_all2 (\<lambda>x n. py_int x = Some n) (split current CHR ''.'') ct"
  shows "(fst (is_newer self latest current) \<longleftrightarrow> (ct, lt) \<in> lexord {(a, b). a < b}) \<and>
         ((ct, lt) \<in> lexord {(a, b). a < b} \<longleftrightarrow>
            strict_prefix ct lt \<or> (\<exists>u a b v w. ct = u @ a # v \<and> lt = u @ b # w \<and> a < b)) \<and>
         (current_version self = current \<and>
          urlopen (Request self) REQUEST_TIMEOUT = Content content \<and>
          parse_version self content = Some latest \<longrightarrow>
            signals (events (run self urlopen)) =
              [if (ct, lt) \<in> lexord {(a, b). a < b}
               then update_available latest current else no_update current]) \<and>
         (latest = current \<longrightarrow> \<not> fst (is_newer self latest current) \<and> ct = lt)"
proof -
  from assms have p: "ints (split latest CHR ''.'') = Some lt" "ints (split current CHR ''.'') = Some ct"
    by (simp_all add: ints_Some_iff)
  then have n: "fst (is_newer self latest current) \<longleftrightarrow> (ct, lt) \<in> lexord {(a, b). a < b}"
    by (simp add: is_newer_def list_gt_lexord)
  have irrefl: "(xs, xs) \<notin> lexord {(a, b). a < b}" for xs :: "int list"
    by (rule lexord_irreflexive) simp
  have "\<not> fst (is_newer self latest current) \<and> ct = lt" if "latest = current"
    using that p n irrefl by simp
  moreover have "signals (events (run self urlopen)) =
              [if (ct, lt) \<in> lexord {(a, b). a < b}
               then update_available latest current else no_update current]"
    if "current_version self = current" "urlopen (Request self) REQUEST_TIMEOUT = Content content"
      "parse_version self content = Some latest"
    using run_version(1) [of urlopen self content latest] n that by simp
  ultimately show ?thesis using n lexord_explicit [of ct lt] by blast
qed

theorem is_newer_lexicographic_witness:
  "fst (is_newer \<lparr>current_version = ''2.9.9''\<rparr> ''2.10.0'' ''2.9.9'') \<and>
   ([2, 9, 9], [2, 10, 0]) \<in> lexord {(a, b). a < (b::int)} \<and>
   signals (events (run \<lparr>current_version = ''2.9.9''\<rparr> (\<lambda>r t. Content ''VERSION = \"2.10.0\"''))) =
     [update_available ''2.10.0'' ''2.9.9'']"
proof -
  have l: "list_all2 (\<lambda>x n. py_int x = Some n) (split ''2.10.0'' CHR ''.'') [2, 10, 0]"
    by (simp add: int_defs)
  have c: "list_all2 (\<lambda>x n. py_int x = Some n) (split ''2.9.9'' CHR ''.'') [2, 9, 9]"
    by (simp add: int_defs)
  have o: "([2, 9, 9], [2, 10, 0]) \<in> lexord {(a, b). a < (b::int)}" by simp
  have v: "parse_version \<lparr>current_version = ''2.9.9''\<rparr> ''VERSION = \"2.10.0\"'' = Some ''2.10.0''"
    by (simp add: engine_defs)
  show ?thesis
    using is_newer_lexicographic [OF l c, of "\<lparr>current_version = ''2.9.9''\<rparr>"
        "\<lambda>r t. Content ''VERSION = \"2.10.0\"''" "''VERSION = \"2.10.0\"''"] o v
    by simp
qed

text \<open>
  Claim C2. When the fetch raises (\<open>URLError\<close>, \<open>TimeoutError\<close> or any other exception),
  \<open>run\<close> emits \<open>check_failed\<close> once, with a message that names the failure, and no
  exception leaves \<open>run\<close>.
\<close>

theorem run_fetch_raises:
  assumes "urlopen (Request self) REQUEST_TIMEOUT = Raised e"
  shows "signals (events (run self urlopen)) =
           [check_failed (case e of
              URLError reason \<Rightarrow> ''Network error: '' @ reason
            | TimeoutError \<Rightarrow> ''Request timed out''
            | OtherException m \<Rightarrow> ''Error checking for updates: '' @ m)] \<and>
         raised (run self urlopen) = None"
  using run_Raised [of urlopen self e] assms by simp

theorem run_fetch_raises_witness:
  "signals (events (run \<lparr>current_version = ''2.1.0''\<rparr> (\<lambda>r t. Raised (URLError ''Connection refused'')))) =
     [check_failed ''Network error: Connection refused''] \<and>
   raised (run \<lparr>current_version = ''2.1.0''\<rparr> (\<lambda>r t. Raised (URLError ''Connection refused''))) = None"
  using run_fetch_raises [of "\<lambda>r t. Raised (URLError ''Connection refused'')"
      "\<lparr>current_version = ''2.1.0''\<rparr>" "URLError ''Connection refused''"]
  by simp

text \<open>
  Claim C3. When the pattern finds no match in the fetched body, \<open>run\<close> emits
  \<open>check_failed\<close> with exactly the message \<open>Could not parse version from GitHub\<close>.
\<close>

theorem run_pattern_not_found:
  assumes "urlopen (Request self) REQUEST_TIMEOUT = Content content"
    and "re_search VERSION_RE content = None"
  shows "signals (events (run self urlopen)) = [check_failed ''Could not parse version from GitHub'']"
proof -
  from assms(2) have "parse_version self content = None" by (simp add: parse_version_def)
  with assms(1) show ?thesis using run_no_version(1) [of urlopen self content] by simp
qed

theorem run_pattern_not_found_witness:
  "re_search VERSION_RE ''version: 3.0.0'' = None \<and>
   signals (events (run \<lparr>current_version = ''2.1.0''\<rparr> (\<lambda>r t. Content ''version: 3.0.0''))) =
     [check_failed ''Could not parse version from GitHub'']"
proof -
  have n: "re_search VERSION_RE ''version: 3.0.0'' = None"
    by (simp add: re_search_def VERSION_RE_def lits_def)
  show ?thesis
    using run_pattern_not_found [of "\<lambda>r t. Content ''version: 3.0.0''"
        "\<lparr>current_version = ''2.1.0''\<rparr>" "''version: 3.0.0''"] n
    by simp
qed

text \<open>
  Claim C4 says that \<open>_parse_version\<close> extracts the value of any token
  \<^verbatim>\<open>VERSION = "<value>"\<close> that the body contains. It extracts the value of the first match
  only, a value stops at the first quote character of either kind, and an empty value
  is no match.
\<close>

theorem parse_version_any_token_counterexample:
  "parse_version \<lparr>current_version = ''2.1.0''\<rparr> ''VERSION = \"1.0.0\"; VERSION = \"3.0.0\"'' = Some ''1.0.0'' \<and>
   parse_version \<lparr>current_version = ''2.1.0''\<rparr> ''VERSION = \"3.0'0\"'' = Some ''3.0'' \<and>
   parse_version \<lparr>current_version = ''2.1.0''\<rparr> ''VERSION = \"\"'' = None"
  by (simp add: engine_defs)

text \<open>
  Claim C4, as amended. When the body holds a token \<^verbatim>\<open>VERSION = "<value>"\<close>, its quotes each
  single or double, any whitespace or none around the equals sign, the value not empty and
  free of quote characters, and no such token starts at an earlier position of the body,
  \<open>_parse_version\<close> extracts exactly the value. (\<open>token_value s\<close> is the value of the token
  that starts at the head of \<open>s\<close>, lemma \<open>token_value_iff\<close>.)
\<close>

theorem parse_version_first_token:
  assumes "content = pre @ ''VERSION'' @ ws1 @ ''='' @ ws2 @ [q1] @ v @ [q2] @ post"
    and "\<forall>j<length pre. token_value (drop j content) = None"
    and "list_all isspace ws1" and "list_all isspace ws2"
    and "is_quote q1" and "is_quote q2"
    and "v \<noteq> []" and "list_all (\<lambda>c. \<not> is_quote c) v"
  shows "parse_version self content = Some v"
proof -
  have "drop (length pre) content = ''VERSION'' @ ws1 @ ''='' @ ws2 @ [q1] @ v @ [q2] @ post"
    using assms(1) by simp
  then have here: "token_value (drop (length pre) content) = Some v"
    unfolding token_value_iff using assms(3-8) by blast
  have "length pre \<le> length content" using assms(1) by simp
  with here assms(2) show ?thesis unfolding parse_version_Some_iff by blast
qed

theorem parse_version_first_token_witness:
  "parse_version \<lparr>current_version = ''2.1.0''\<rparr>
     ''# VERSION history; VERSION  ='3.0.0\" # VERSION = \"4\"'' = Some ''3.0.0''"
proof -
  have "\<forall>j<length ''# VERSION history; ''.
      token_value (drop j ''# VERSION history; VERSION  ='3.0.0\" # VERSION = \"4\"'') = None"
    by (simp add: scan_defs All_less_Suc)
  then show ?thesis
    using parse_version_first_token [of "''# VERSION history; VERSION  ='3.0.0\" # VERSION = \"4\"''"
        "''# VERSION history; ''" "''  ''" "''''" "CHR 0x27" "''3.0.0''" "CHR 0x22" "'' # VERSION = \"4\"''"
        "\<lparr>current_version = ''2.1.0''\<rparr>"]
    by (simp add: is_quote_def squote_def dquote_def isspace_def)
qed

text \<open>
  Claim C5. When a segment of either version string does not parse as an integer,
  \<open>_is_newer\<close> logs a warning and returns \<open>False\<close>, so \<open>run\<close> emits \<open>no_update(current)\<close>
  and not \<open>check_failed\<close>.
\<close>

theorem is_newer_unparsable:
  assumes "(\<exists>x\<in>set (split latest CHR ''.''). py_int x = None) \<or>
           (\<exists>x\<in>set (split current CHR ''.''). py_int x = None)"
  shows "is_newer self latest current =
           (False, [Log WARNING (''Could not parse versions: '' @ latest @ '' vs '' @ current)]) \<and>
         (current_version self = current \<and>
          urlopen (Request self) REQUEST_TIMEOUT = Content content \<and>
          parse_version self content = Some latest \<longrightarrow>
            signals (events (run self urlopen)) = [no_update current] \<and>
            raised (run self urlopen) = None)"
proof -
  from assms have "ints (split latest CHR ''.'') = None \<or> ints (split current CHR ''.'') = None"
    by (simp add: ints_None_iff)
  then have n: "is_newer self latest current =
      (False, [Log WARNING (''Could not parse versions: '' @ latest @ '' vs '' @ current)])"
    by (auto simp: is_newer_def split: option.splits)
  have "signals (events (run self urlopen)) = [no_update current] \<and> raised (run self urlopen) = None"
    if "current_version self = current" "urlopen (Request self) REQUEST_TIMEOUT = Content content"
      "parse_version self content = Some latest"
    using run_version [of urlopen self content latest] n that by simp
  with n show ?thesis by blast
qed

theorem is_newer_unparsable_witness:
  "is_newer \<lparr>current_version = ''2.1.0''\<rparr> ''abc'' ''2.1.0'' =
     (False, [Log WARNING ''Could not parse versions: abc vs 2.1.0'']) \<and>
   signals (events (run \<lparr>current_version = ''2.1.0''\<rparr> (\<lambda>r t. Content ''VERSION = \"abc\"''))) =
     [no_update ''2.1.0'']"
proof -
  have a: "\<exists>x\<in>set (split ''abc'' CHR ''.''). py_int x = None" by (simp add: int_defs)
  have v: "parse_version \<lparr>current_version = ''2.1.0''\<rparr> ''VERSION = \"abc\"'' = Some ''abc''"
    by (simp add: engine_defs)
  show ?thesis
    using is_newer_unparsable [of "''abc''" "''2.1.0''" "\<lparr>current_version = ''2.1.0''\<rparr>"
        "\<lambda>r t. Content ''VERSION = \"abc\"''" "''VERSION = \"abc\"''"] a v
    by simp
qed

text \<open>
  Claim C6. Every call of \<open>run\<close> emits exactly one signal, whatever the fetch gives, and
  returns normally.
\<close>

theorem run_emits_exactly_one_signal:
  "length (signals (events (run self urlopen))) = 1 \<and> raised (run self urlopen) = None"
proof (cases "urlopen (Request self) REQUEST_TIMEOUT")
  case (Raised e)
  then show ?thesis using run_Raised [of urlopen self e] by simp
next
  case (Content content)
  show ?thesis
  proof (cases "parse_version self content")
    case None
    with Content show ?thesis using run_no_version [of urlopen self content] by simp
  next
    case (Some latest)
    with Content show ?thesis using run_version [of urlopen self content latest] by simp
  qed
qed

text \<open>
  Claim C7 says that a tuple derived from a version string has no negative component.
  \<open>int\<close> accepts a sign: the string \<open>-1.2\<close> gives the tuple \<open>[-1, 2]\<close>, and \<open>0.0\<close> is
  newer than it.
\<close>

theorem version_tuple_negative_counterexample:
  "ints (split ''-1.2'' CHR ''.'') = Some [- 1, 2] \<and> (- 1 :: int) < 0 \<and>
   is_newer \<lparr>current_version = ''-1.2''\<rparr> ''0.0'' ''-1.2'' = (True, [])"
  by (simp add: int_defs is_newer_def)

text \<open>
  Claim C7, as amended. Every tuple derived from a version string in which the
  character \<open>-\<close> does not occur is a tuple of non-negative integers.
\<close>

theorem version_tuple_nonnegative:
  assumes "ints (split s CHR ''.'') = Some ns" and "CHR ''-'' \<notin> set s"
  shows "list_all (\<lambda>n. 0 \<le> n) ns"
proof -
  have "\<forall>x\<in>set (split s CHR ''.''). CHR ''-'' \<notin> set x"
    using set_split [of _ s "CHR ''.''"] assms(2) by blast
  with assms(1) show ?thesis by (rule ints_nonneg)
qed

theorem version_tuple_nonnegative_witness:
  "ints (split ''2.10.0'' CHR ''.'') = Some [2, 10, 0] \<and> list_all (\<lambda>n. 0 \<le> n) [2, 10, 0 :: int]"
proof -
  have a: "ints (split ''2.10.0'' CHR ''.'') = Some [2, 10, 0]" by (simp add: int_defs)
  have b: "CHR ''-'' \<notin> set ''2.10.0''" by simp
  from version_tuple_nonnegative [OF a b] a show ?thesis by simp
qed

text \<open>
  Claim C8. \<open>_parse_version\<close> succeeds exactly on the bodies that contain the text
  \<open>VERSION\<close>, whitespace or none, \<open>=\<close>, whitespace or none, a quote character, one or more
  characters that are not quote characters, and a quote character again, which need not
  be the opening one. A value it extracts is not empty and holds no quote character. A
  body that is only \<^verbatim>\<open>VERSION = ""\<close> matches nothing, and \<open>run\<close> emits \<open>check_failed\<close>.
\<close>

theorem parse_version_succeeds_iff:
  "(parse_version self content \<noteq> None \<longleftrightarrow>
      (\<exists>pre ws1 ws2 q1 v q2 post.
         content = pre @ ''VERSION'' @ ws1 @ ''='' @ ws2 @ [q1] @ v @ [q2] @ post \<and>
         list_all isspace ws1 \<and> list_all isspace ws2 \<and>
         is_quote q1 \<and> is_quote q2 \<and> v \<noteq> [] \<and> list_all (\<lambda>c. \<not> is_quote c) v)) \<and>
   (\<forall>v. parse_version self content = Some v \<longrightarrow> v \<noteq> [] \<and> list_all (\<lambda>c. \<not> is_quote c) v) \<and>
   parse_version self ''VERSION = \"\"'' = None \<and>
   (urlopen (Request self) REQUEST_TIMEOUT = Content ''VERSION = \"\"'' \<longrightarrow>
      signals (events (run self urlopen)) = [check_failed ''Could not parse version from GitHub''])"
proof -
  have "parse_version self content \<noteq> None \<longleftrightarrow>
      (\<exists>pre ws1 ws2 q1 v q2 post.
         content = pre @ ''VERSION'' @ ws1 @ ''='' @ ws2 @ [q1] @ v @ [q2] @ post \<and>
         list_all isspace ws1 \<and> list_all isspace ws2 \<and>
         is_quote q1 \<and> is_quote q2 \<and> v \<noteq> [] \<and> list_all (\<lambda>c. \<not> is_quote c) v)"
  proof
    assume "parse_version self content \<noteq> None"
    then obtain i v where "token_value (drop i content) = Some v"
      unfolding parse_version_None_iff by auto
    then obtain ws1 ws2 q1 q2 post where
      d: "drop i content = ''VERSION'' @ ws1 @ ''='' @ ws2 @ [q1] @ v @ [q2] @ post"
      and c: "list_all isspace ws1" "list_all isspace ws2" "is_quote q1" "is_quote q2" "v \<noteq> []"
        "list_all (\<lambda>c. \<not> is_quote c) v"
      unfolding token_value_iff by blast
    have "content = take i content @ drop i content" by simp
    with d have "content = take i content @ ''VERSION'' @ ws1 @ ''='' @ ws2 @ [q1] @ v @ [q2] @ post"
      by simp
    with c show "\<exists>pre ws1 ws2 q1 v q2 post.
         content = pre @ ''VERSION'' @ ws1 @ ''='' @ ws2 @ [q1] @ v @ [q2] @ post \<and>
         list_all isspace ws1 \<and> list_all isspace ws2 \<and>
         is_quote q1 \<and> is_quote q2 \<and> v \<noteq> [] \<and> list_all (\<lambda>c. \<not> is_quote c) v"
      by blast
  next
    assume "\<exists>pre ws1 ws2 q1 v q2 post.
         content = pre @ ''VERSION'' @ ws1 @ ''='' @ ws2 @ [q1] @ v @ [q2] @ post \<and>
         list_all isspace ws1 \<and> list_all isspace ws2 \<and>
         is_quote q1 \<and> is_quote q2 \<and> v \<noteq> [] \<and> list_all (\<lambda>c. \<not> is_quote c) v"
    then obtain pre ws1 ws2 q1 v q2 post where
      d: "content = pre @ ''VERSION'' @ ws1 @ ''='' @ ws2 @ [q1] @ v @ [q2] @ post"
      and c: "list_all isspace ws1" "list_all isspace ws2" "is_quote q1" "is_quote q2" "v \<noteq> []"
        "list_all (\<lambda>c. \<not> is_quote c) v"
      by blast
    from d have "drop (length pre) content = ''VERSION'' @ ws1 @ ''='' @ ws2 @ [q1] @ v @ [q2] @ post"
      by simp
    with c have "token_value (drop (length pre) content) = Some v"
      unfolding token_value_iff by blast
    moreover have "length pre \<le> length content" using d by simp
    ultimately show "parse_version self content \<noteq> None"
      unfolding parse_version_None_iff by auto
  qed
  moreover have "\<forall>v. parse_version self content = Some v \<longrightarrow>
      v \<noteq> [] \<and> list_all (\<lambda>c. \<not> is_quote c) v"
    using parse_version_value by blast
  moreover have e: "parse_version self ''VERSION = \"\"'' = None"
    by (simp add: engine_defs)
  moreover have "signals (events (run self urlopen)) = [check_failed ''Could not parse version from GitHub'']"
    if "urlopen (Request self) REQUEST_TIMEOUT = Content ''VERSION = \"\"''"
    using run_no_version(1) [of urlopen self "''VERSION = \"\"''"] that e by simp
  ultimately show ?thesis by blast
qed

theorem parse_version_succeeds_iff_witness:
  "parse_version \<lparr>current_version = ''2.1.0''\<rparr> ''VERSION = '1.0\"'' = Some ''1.0'' \<and>
   ''1.0'' \<noteq> [] \<and> list_all (\<lambda>c. \<not> is_quote c) ''1.0''"
proof -
  have "parse_version \<lparr>current_version = ''2.1.0''\<rparr> ''VERSION = '1.0\"'' = Some ''1.0''"
    by (simp add: engine_defs)
  with parse_version_succeeds_iff [of "\<lparr>current_version = ''2.1.0''\<rparr>" "''VERSION = '1.0\"''"]
  show ?thesis by blast
qed

text \<open>
  Claim C9. \<open>_parse_version\<close> returns the value of the leftmost occurrence of the
  pattern: it returns \<open>v\<close> exactly when some position starts a token of value \<open>v\<close> and no
  position to its left starts a token, whatever follows. Here \<open>token_value s\<close> is the
  value of the token that starts at the head of \<open>s\<close>: the second half of the theorem.
\<close>

theorem parse_version_leftmost:
  "(parse_version self content = Some v \<longleftrightarrow>
      (\<exists>i\<le>length content. token_value (drop i content) = Some v \<and>
         (\<forall>j<i. token_value (drop j content) = None))) \<and>
   (token_value s = Some v \<longleftrightarrow>
      (\<exists>ws1 ws2 q1 q2 post.
         s = ''VERSION'' @ ws1 @ ''='' @ ws2 @ [q1] @ v @ [q2] @ post \<and>
         list_all isspace ws1 \<and> list_all isspace ws2 \<and>
         is_quote q1 \<and> is_quote q2 \<and> v \<noteq> [] \<and> list_all (\<lambda>c. \<not> is_quote c) v))"
proof -
  have "parse_version self content = Some v \<longleftrightarrow>
      (\<exists>i\<le>length content. token_value (drop i content) = Some v \<and>
         (\<forall>j<i. token_value (drop j content) = None))"
    unfolding parse_version_Some_iff by blast
  then show ?thesis using token_value_iff [of s v] by blast
qed

theorem parse_version_leftmost_witness:
  "token_value (drop 2 ''# VERSION=\"1\" VERSION=\"2\"'') = Some ''1'' \<and>
   token_value (drop 14 ''# VERSION=\"1\" VERSION=\"2\"'') = Some ''2'' \<and>
   parse_version \<lparr>current_version = ''2.1.0''\<rparr> ''# VERSION=\"1\" VERSION=\"2\"'' = Some ''1''"
proof -
  have a: "token_value (drop 2 ''# VERSION=\"1\" VERSION=\"2\"'') = Some ''1''"
    by (simp add: scan_defs)
  have b: "token_value (drop 14 ''# VERSION=\"1\" VERSION=\"2\"'') = Some ''2''"
    by (simp add: scan_defs)
  have c: "\<forall>j<2. token_value (drop j ''# VERSION=\"1\" VERSION=\"2\"'') = None"
    by (simp add: scan_defs All_less_Suc numeral_2_eq_2)
  have "parse_version \<lparr>current_version = ''2.1.0''\<rparr> ''# VERSION=\"1\" VERSION=\"2\"'' = Some ''1''"
    using a c
    by (intro parse_version_leftmost [THEN conjunct1, THEN iffD2] exI [of _ 2]) simp
  with a b show ?thesis by simp
qed

text \<open>
  Claim C10 says that what \<open>_is_newer\<close> returns depends on no state other than its
  arguments. \<open>int\<close> reads the interpreter's limit on the digits of an integer string: on
  a version of 4301 digits against \<open>1\<close>, \<open>_is_newer\<close> returns \<open>False\<close> under the default
  limit, where \<open>int\<close> raises \<open>ValueError\<close>, and \<open>True\<close> with the limit switched off.
\<close>

theorem is_newer_digit_limit_counterexample:
  "\<not> fst (is_newer_at int_max_str_digits \<lparr>current_version = ''1''\<rparr> (replicate 4301 CHR ''1'') ''1'') \<and>
   fst (is_newer_at 0 \<lparr>current_version = ''1''\<rparr> (replicate 4301 CHR ''1'') ''1'')"
proof -
  have n: "(4301::nat) = Suc 4300" "(4300::nat) = Suc 4299" by simp_all
  have a: "py_int_at int_max_str_digits (replicate 4301 CHR ''1'') = None"
    unfolding n(1) py_int_at_ones
    by (simp add: int_max_str_digits_def str_digits_check_threshold_def)
  obtain k where k: "11 \<le> k" "digits_from 1 (replicate 4300 CHR ''1'') = Some k"
    unfolding n(2) using digits_from_ones_Suc [of 1 4299] by auto
  then have b: "py_int_at 0 (replicate 4301 CHR ''1'') = Some (int k)"
    unfolding n(1) py_int_at_ones by simp
  have c: "ints_at 0 (split ''1'' CHR ''.'') = Some [1]"
    by (simp add: split_def py_int_at_def strip_def int_isspace_def digits_at_def isdigit_def
        digit_value_def)
  from a have "\<not> fst (is_newer_at int_max_str_digits \<lparr>current_version = ''1''\<rparr>
      (replicate 4301 CHR ''1'') ''1'')"
    by (simp add: is_newer_at_def split_ones)
  moreover from b c k(1) have "fst (is_newer_at 0 \<lparr>current_version = ''1''\<rparr>
      (replicate 4301 CHR ''1'') ''1'')"
    by (simp add: is_newer_at_def split_ones)
  ultimately show ?thesis by simp
qed

text \<open>
  Claim C10, as amended. \<open>_parse_version\<close> is a function of the body alone, and
  \<open>_is_newer\<close> is a function of its two arguments and of the interpreter's limit on the
  digits of an integer string: the object they are called on has no part in what they
  return and log, \<open>is_newer\<close> is \<open>_is_newer\<close> at the default limit, and when no segment
  of either version string has more digits than the threshold of 640 the limit has no
  part either.
\<close>

theorem is_newer_state_dependence:
  "parse_version self content = parse_version self' content \<and>
   is_newer self latest current = is_newer_at int_max_str_digits self latest current \<and>
   is_newer_at lim self latest current = is_newer_at lim self' latest current \<and>
   (list_all (\<lambda>x. length (filter isdigit x) \<le> str_digits_check_threshold)
      (split latest CHR ''.'' @ split current CHR ''.'') \<longrightarrow>
    is_newer_at lim self latest current = is_newer_at lim' self' latest current)"
proof -
  have "is_newer_at lim self latest current = is_newer_at lim' self' latest current"
    if "list_all (\<lambda>x. length (filter isdigit x) \<le> str_digits_check_threshold)
      (split latest CHR ''.'' @ split current CHR ''.'')"
  proof -
    from that have "ints_at lim (split latest CHR ''.'') = ints_at lim' (split latest CHR ''.'')"
      and "ints_at lim (split current CHR ''.'') = ints_at lim' (split current CHR ''.'')"
      by (simp_all add: ints_at_small [of _ lim lim'])
    then show ?thesis unfolding is_newer_at_def by (simp only:)
  qed
  moreover have "parse_version self content = parse_version self' content"
    by (simp add: parse_version_def)
  moreover have "is_newer_at lim self latest current = is_newer_at lim self' latest current"
    by (simp add: is_newer_at_def)
  ultimately show ?thesis by (simp add: is_newer_at_default)
qed

theorem is_newer_state_dependence_witness:
  "list_all (\<lambda>x. length (filter isdigit x) \<le> str_digits_check_threshold)
     (split ''2.10.0'' CHR ''.'' @ split ''2.9.9'' CHR ''.'') \<and>
   is_newer_at int_max_str_digits \<lparr>current_version = ''2.9.9''\<rparr> ''2.10.0'' ''2.9.9'' = (True, []) \<and>
   is_newer_at 0 \<lparr>current_version = ''1.0''\<rparr> ''2.10.0'' ''2.9.9'' = (True, [])"
proof -
  have a: "list_all (\<lambda>x. length (filter isdigit x) \<le> str_digits_check_threshold)
     (split ''2.10.0'' CHR ''.'' @ split ''2.9.9'' CHR ''.'')"
    by (simp add: split_def isdigit_def str_digits_check_threshold_def)
  have b: "is_newer_at int_max_str_digits \<lparr>current_version = ''2.9.9''\<rparr> ''2.10.0'' ''2.9.9'' = (True, [])"
    by (simp add: is_newer_at_def split_def py_int_at_def strip_def int_isspace_def digits_at_def
        isdigit_def digit_value_def int_max_str_digits_def str_digits_check_threshold_def)
  from is_newer_state_dependence [of "\<lparr>current_version = ''2.9.9''\<rparr>" "''''"
      "\<lparr>current_version = ''1.0''\<rparr>" "''2.10.0''" "''2.9.9''" int_max_str_digits 0] a
  have "is_newer_at int_max_str_digits \<lparr>current_version = ''2.9.9''\<rparr> ''2.10.0'' ''2.9.9'' =
      is_newer_at 0 \<lparr>current_version = ''1.0''\<rparr> ''2.10.0'' ''2.9.9''"
    by blast
  with a b show ?thesis by simp
qed

end
